theory Spec2Isabelle
  imports Complex_Main "HOL-Library.Sublist" "HOL-Library.Multiset"
begin

section \<open>Text\<close>

text \<open>
  A Python \<open>str\<close> is a sequence of Unicode code points; it is modelled as a list of
  natural numbers, one per code point. Literals of the source are written as Isabelle
  strings and converted with \<open>py\<close>.
\<close>

type_synonym pystr = "nat list"

definition py :: "string \<Rightarrow> pystr" where
  "py s = map of_char s"

text \<open>
  \<open>is_space\<close> is the whitespace test shared by \<open>str.strip\<close>, \<open>str.isspace\<close> and the
  regular expression class \<open>\s\<close> on \<open>str\<close> patterns.
\<close>

definition is_space :: "nat \<Rightarrow> bool" where
  "is_space c =
     ((9 \<le> c \<and> c \<le> 13) \<or> (28 \<le> c \<and> c \<le> 32) \<or> c = 133 \<or> c = 160 \<or> c = 5760
      \<or> (8192 \<le> c \<and> c \<le> 8202) \<or> c = 8232 \<or> c = 8233 \<or> c = 8239 \<or> c = 8287
      \<or> c = 12288)"

definition strip :: "pystr \<Rightarrow> pystr" where
  "strip s = rev (dropWhile is_space (rev (dropWhile is_space s)))"

section \<open>autotrain.py: the retraining job\<close>

subsection \<open>Policy knobs\<close>

text \<open>
  The module-level constants \<open>MIN_TOTAL\<close>, \<open>MIN_NEW\<close>, \<open>COOLDOWN\<close> and \<open>KEEP_LAST\<close>.
  Naive UTC datetimes are counted in microseconds since 1970-01-01T00:00:00, the
  resolution of \<open>datetime\<close>; a \<open>timedelta\<close> is a number of microseconds.
\<close>

record policy =
  MIN_TOTAL :: int
  MIN_NEW :: int
  COOLDOWN :: int
  KEEP_LAST :: nat

definition hours :: "int \<Rightarrow> int" where
  "hours h = h * 3600 * 1000000"

definition default_policy :: policy where
  "default_policy = \<lparr>MIN_TOTAL = 30, MIN_NEW = 10, COOLDOWN = hours 24, KEEP_LAST = 5\<rparr>"

text \<open>The module body: \<open>AUTOTRAIN_FORCE=1\<close> in the environment overrides three knobs.\<close>

definition policy_of_env :: "bool \<Rightarrow> policy" where
  "policy_of_env autotrain_force =
     (if autotrain_force
      then default_policy\<lparr>MIN_TOTAL := 1, MIN_NEW := 0, COOLDOWN := 0\<rparr>
      else default_policy)"

subsection \<open>Persisted run state\<close>

text \<open>
  The state dictionary with its three keys; a key may be absent from a state file
  written by hand, and \<open>should_train\<close> reads the first two with \<open>dict.get\<close> defaults.
\<close>

record train_state =
  last_count :: "int option"
  last_time :: "int option"
  last_model :: "pystr option"

definition get_last_count :: "train_state \<Rightarrow> int" where
  "get_last_count state = (case last_count state of None \<Rightarrow> 0 | Some c \<Rightarrow> c)"

definition get_last_time :: "train_state \<Rightarrow> int" where
  "get_last_time state = (case last_time state of None \<Rightarrow> 0 | Some t \<Rightarrow> t)"

text \<open>\<open>datetime.utcnow()\<close> is read inside the function; here it is the argument \<open>utcnow\<close>.\<close>

definition should_train :: "policy \<Rightarrow> int \<Rightarrow> int \<Rightarrow> train_state \<Rightarrow> bool" where
  "should_train cfg utcnow tot state =
     (let lc = get_last_count state;
          lt = get_last_time state
      in if tot < MIN_TOTAL cfg then False
         else let new_since = tot - lc;
                  time_since = utcnow - lt
              in if new_since < MIN_NEW cfg \<and> time_since < COOLDOWN cfg then False
                 else True)"

subsection \<open>The files and the console\<close>

text \<open>
  \<open>train_state.json\<close> is absent, holds text that \<open>json.loads\<close> rejects, or holds a
  JSON object. \<open>load_state\<close> falls back to the default dictionary in the first two
  cases.
\<close>

datatype state_file = Missing | Garbled pystr | Json train_state

text \<open>An entry of the models directory: its name, whether it is a directory, its \<open>st_mtime\<close>.\<close>

record entry =
  name :: pystr
  is_dir :: bool
  mtime :: rat

datatype log_entry =
    Status int int int
  | SkipNote
  | TrainOutput pystr
  | ReloadOK pystr
  | ReloadWarning pystr
  | Pruned pystr
  | FailedToPrune pystr
  | PromotedNote pystr

text \<open>
  What the job reads and writes: the feedback log (its decoded text, \<open>None\<close> when the
  file does not exist), the state file, the models directory (\<open>None\<close> when it does
  not exist, else its entries in \<open>iterdir\<close> order) and the lines printed so far.
\<close>

record world =
  feedback_file :: "pystr option"
  state_file :: state_file
  models_dir :: "entry list option"
  printed :: "log_entry list"

definition put :: "log_entry \<Rightarrow> world \<Rightarrow> world" where
  "put l w = w\<lparr>printed := printed w @ [l]\<rparr>"

datatype error =
    KeyError pystr
  | RuntimeError string
  | SubprocessError pystr
  | UnicodeEncodeError

text \<open>
  What the surroundings answer during one run: the two clock readings, the training
  subprocess (\<open>subprocess.run\<close> raises, or returns with the captured output), the
  folder that the training script left under the models directory (its name and
  \<open>st_mtime\<close>; \<open>None\<close> when the script died before creating it), the serving API's
  answer to the reload request, and which folders \<open>shutil.rmtree\<close> fails on.
\<close>

datatype train_run = Raised pystr | Completed pystr

datatype reload_reply = Accepted pystr | Refused pystr

record env =
  utcnow_decide :: int
  utcnow_save :: int
  train :: train_run
  trained_folder :: "(pystr \<times> rat) option"
  reload :: reload_reply
  rmtree_fails :: "pystr \<Rightarrow> bool"

subsection \<open>Counting feedback\<close>

text \<open>
  \<open>str.splitlines\<close>: a line ends at \<open>\n\<close>, \<open>\r\<close>, \<open>\r\n\<close>, \<open>\v\<close>, \<open>\f\<close>, the
  separators 28 to 30, NEL, and the Unicode line and paragraph separators; the text
  after the last boundary is a line when it is not empty.
\<close>

definition is_linebreak :: "nat \<Rightarrow> bool" where
  "is_linebreak c = ((10 \<le> c \<and> c \<le> 13) \<or> (28 \<le> c \<and> c \<le> 30) \<or> c = 133 \<or> c = 8232 \<or> c = 8233)"

fun splitlines_from :: "pystr \<Rightarrow> pystr \<Rightarrow> pystr list" where
  "splitlines_from cur [] = (if cur = [] then [] else [cur])"
| "splitlines_from cur [c] =
     (if is_linebreak c then [cur] else [cur @ [c]])"
| "splitlines_from cur (c # d # ds) =
     (if c = 13 \<and> d = 10 then cur # splitlines_from [] ds
      else if is_linebreak c then cur # splitlines_from [] (d # ds)
      else splitlines_from (cur @ [c]) (d # ds))"

definition splitlines :: "pystr \<Rightarrow> pystr list" where
  "splitlines s = splitlines_from [] s"

definition read_count :: "pystr option \<Rightarrow> int" where
  "read_count p =
     (case p of
        None \<Rightarrow> 0
      | Some text \<Rightarrow> int (length (filter (\<lambda>l. strip l \<noteq> []) (splitlines text))))"

subsection \<open>Loading and saving the state\<close>

definition default_state :: train_state where
  "default_state = \<lparr>last_count = Some 0, last_time = Some 0, last_model = Some []\<rparr>"

definition load_state :: "state_file \<Rightarrow> train_state" where
  "load_state f = (case f of Missing \<Rightarrow> default_state | Garbled _ \<Rightarrow> default_state | Json s \<Rightarrow> s)"

definition save_state :: "train_state \<Rightarrow> world \<Rightarrow> world" where
  "save_state s w = w\<lparr>state_file := Json s\<rparr>"

subsection \<open>Running the training script\<close>

text \<open>
  \<open>re.search(r"Saved new model to:\s*(.+)", out)\<close>. \<open>dot_plus\<close> is the group \<open>(.+)\<close> at
  a position: the longest run of characters other than \<open>\n\<close>, which must not be empty.
  \<open>ws_then_group\<close> is \<open>\s*(.+)\<close>: the greedy \<open>\s*\<close> takes a whitespace character when
  the rest of the pattern still matches after it, and gives it back otherwise.
  \<open>re_search\<close> tries the start positions from left to right and returns group 1 of the
  first match.
\<close>

definition saved_marker :: pystr where
  "saved_marker = py ''Saved new model to:''"

definition dot_plus :: "pystr \<Rightarrow> pystr option" where
  "dot_plus s = (let g = takeWhile (\<lambda>c. c \<noteq> 10) s in if g = [] then None else Some g)"

fun ws_then_group :: "pystr \<Rightarrow> pystr option" where
  "ws_then_group [] = None"
| "ws_then_group (c # cs) =
     (if is_space c
      then (case ws_then_group cs of Some g \<Rightarrow> Some g | None \<Rightarrow> dot_plus (c # cs))
      else dot_plus (c # cs))"

definition match_here :: "pystr \<Rightarrow> pystr option" where
  "match_here s =
     (if prefix saved_marker s then ws_then_group (drop (length saved_marker) s) else None)"

fun re_search :: "pystr \<Rightarrow> pystr option" where
  "re_search [] = None"
| "re_search (c # cs) =
     (case match_here (c # cs) of Some g \<Rightarrow> Some g | None \<Rightarrow> re_search cs)"

text \<open>
  What the script does on disk before it prints anything about the model:
  \<open>OUT_DIR.mkdir(parents=True, exist_ok=True)\<close> with \<open>OUT_DIR\<close> a folder of the models
  directory, which the trainer and \<open>save_pretrained\<close> then fill. The order in which
  \<open>iterdir\<close> lists the new folder is not specified; it is put last.
\<close>

definition train_py_effect :: "(pystr \<times> rat) option \<Rightarrow> world \<Rightarrow> world" where
  "train_py_effect made w =
     (case made of
        None \<Rightarrow> w
      | Some (n, t) \<Rightarrow>
          w\<lparr>models_dir :=
               Some ((case models_dir w of
                        None \<Rightarrow> []
                      | Some entries \<Rightarrow> filter (\<lambda>e. name e \<noteq> n) entries)
                     @ [\<lparr>name = n, is_dir = True, mtime = t\<rparr>])\<rparr>)"

definition run_train ::
  "train_run \<Rightarrow> (pystr \<times> rat) option \<Rightarrow> world \<Rightarrow> (error + pystr) \<times> world" where
  "run_train tr made w =
     (case tr of
        Raised e \<Rightarrow> (Inl (SubprocessError e), w)
      | Completed out \<Rightarrow>
          (let w = train_py_effect made w;
               w' = put (TrainOutput out) w
           in case re_search out of
                None \<Rightarrow>
                  (Inl (RuntimeError ''Could not find 'Saved new model to:' line in train output.''), w')
              | Some g \<Rightarrow> (Inr (strip g), w')))"

subsection \<open>Reloading the API\<close>

text \<open>Any exception of the request is caught and printed as a warning.\<close>

definition reload_api :: "reload_reply \<Rightarrow> pystr \<Rightarrow> world \<Rightarrow> world" where
  "reload_api reply model_path w =
     (case reply of
        Accepted body \<Rightarrow> put (ReloadOK body) w
      | Refused e \<Rightarrow> put (ReloadWarning e) w)"

subsection \<open>Pruning old models\<close>

text \<open>
  \<open>folders.sort(key=..., reverse=True)\<close> is a stable sort on the negated key.
  \<open>shutil.rmtree\<close> either removes the folder or raises; the exception is caught inside
  the loop.
\<close>

definition rmtree :: "(pystr \<Rightarrow> bool) \<Rightarrow> entry \<Rightarrow> world \<Rightarrow> world" where
  "rmtree fails p w =
     (if fails (name p) then put (FailedToPrune (name p)) w
      else put (Pruned (name p))
             (w\<lparr>models_dir := map_option (filter (\<lambda>e. name e \<noteq> name p)) (models_dir w)\<rparr>))"

definition prune_old_models :: "nat \<Rightarrow> (pystr \<Rightarrow> bool) \<Rightarrow> world \<Rightarrow> world" where
  "prune_old_models keep fails w =
     (case models_dir w of
        None \<Rightarrow> w
      | Some entries \<Rightarrow>
          (let folders = filter is_dir entries;
               folders = sort_key (\<lambda>p. - mtime p) folders
           in fold (rmtree fails) (drop keep folders) w))"

subsection \<open>The job\<close>

datatype outcome = Skipped | Promoted pystr | Crashed error

definition main :: "policy \<Rightarrow> env \<Rightarrow> world \<Rightarrow> outcome \<times> world" where
  "main cfg ev w =
     (let tot = read_count (feedback_file w);
          state = load_state (state_file w)
      in case last_count state of
           None \<Rightarrow> (Crashed (KeyError (py ''last_count'')), w)
         | Some lc \<Rightarrow>
        (case last_time state of
           None \<Rightarrow> (Crashed (KeyError (py ''last_time'')), w)
         | Some lt \<Rightarrow>
        (let w = put (Status tot lc lt) w
         in if \<not> should_train cfg (utcnow_decide ev) tot state
            then (Skipped, put SkipNote w)
            else (case run_train (train ev) (trained_folder ev) w of
                    (Inl e, w) \<Rightarrow> (Crashed e, w)
                  | (Inr model_path, w) \<Rightarrow>
                      (let w = reload_api (reload ev) model_path w;
                           w = prune_old_models (KEEP_LAST cfg) (rmtree_fails ev) w;
                           state = state\<lparr>last_count := Some tot,
                                         last_time := Some (utcnow_save ev),
                                         last_model := Some model_path\<rparr>;
                           w = save_state state w
                       in (Promoted model_path, put (PromotedNote model_path) w))))))"

subsection \<open>Notions used to state the properties\<close>

text \<open>
  The training output carries a success marker when the literal is followed, after any
  whitespace, by a character other than a newline.
\<close>

definition tail_ok :: "pystr \<Rightarrow> bool" where
  "tail_ok s = (\<exists>ws c rest. s = ws @ c # rest \<and> (\<forall>x\<in>set ws. is_space x) \<and> c \<noteq> 10)"

definition has_marker :: "pystr \<Rightarrow> bool" where
  "has_marker out = (\<exists>pre ws c rest. out = pre @ saved_marker @ ws @ c # rest
       \<and> (\<forall>x\<in>set ws. is_space x) \<and> c \<noteq> 10)"

text \<open>A run reaches the training step when both state keys are there and the decision is yes.\<close>

definition reaches_training :: "policy \<Rightarrow> env \<Rightarrow> world \<Rightarrow> bool" where
  "reaches_training cfg ev w =
     (let state = load_state (state_file w)
      in last_count state \<noteq> None \<and> last_time state \<noteq> None
         \<and> should_train cfg (utcnow_decide ev) (read_count (feedback_file w)) state)"

text \<open>The count in the state file, and the feedback log growing by appends only.\<close>

definition persisted_count :: "world \<Rightarrow> int option" where
  "persisted_count w = (case state_file w of Json s \<Rightarrow> last_count s | _ \<Rightarrow> None)"

definition appended :: "pystr option \<Rightarrow> pystr option \<Rightarrow> bool" where
  "appended before after =
     (case before of
        None \<Rightarrow> True
      | Some t \<Rightarrow> (case after of None \<Rightarrow> False | Some t' \<Rightarrow> prefix t t'))"

subsection \<open>Sample runs\<close>

text \<open>
  A smoke-test world (one vote, no state file, no models directory) and surroundings in
  which the training script dies without printing the marker.
\<close>

definition smoke_world :: world where
  "smoke_world = \<lparr>feedback_file = Some (py ''{}''), state_file = Missing,
                   models_dir = None, printed = []\<rparr>"

definition broken_env :: env where
  "broken_env = \<lparr>utcnow_decide = 100, utcnow_save = 200,
                  train = Completed (py ''Killed''),
                  trained_folder = Some (py ''v8'', 80),
                  reload = Refused (py ''down''),
                  rmtree_fails = (\<lambda>_. False)\<rparr>"

text \<open>The line the pruning loop prints for a folder.\<close>

definition prune_note :: "(pystr \<Rightarrow> bool) \<Rightarrow> entry \<Rightarrow> log_entry" where
  "prune_note fails p = (if fails (name p) then FailedToPrune (name p) else Pruned (name p))"

text \<open>
  A folder is beyond the newest \<open>keep\<close> when at least \<open>keep\<close> folders of the directory
  are newer than it.
\<close>

definition beyond_newest :: "nat \<Rightarrow> entry list \<Rightarrow> entry \<Rightarrow> bool" where
  "beyond_newest keep entries e =
     (is_dir e \<and> keep \<le> length (filter (\<lambda>q. is_dir q \<and> mtime e < mtime q) entries))"

text \<open>Seven model folders and a stray file, in no particular order.\<close>

definition mk_entry :: "string \<Rightarrow> bool \<Rightarrow> rat \<Rightarrow> entry" where
  "mk_entry n d t = \<lparr>name = py n, is_dir = d, mtime = t\<rparr>"

definition seven_models :: "entry list" where
  "seven_models =
     [mk_entry ''v1'' True 10, mk_entry ''v2'' True 70, mk_entry ''v3'' True 30,
      mk_entry ''log'' False 5, mk_entry ''v4'' True 20, mk_entry ''v5'' True 60,
      mk_entry ''v6'' True 50, mk_entry ''v7'' True 40]"

definition models_world :: world where
  "models_world = \<lparr>feedback_file = None, state_file = Missing,
                    models_dir = Some seven_models, printed = []\<rparr>"

text \<open>The same folders in a world with one vote, so that a forced run trains.\<close>

definition stocked_world :: world where
  "stocked_world = \<lparr>feedback_file = Some (py ''{}''), state_file = Missing,
                     models_dir = Some seven_models, printed = []\<rparr>"

text \<open>The number of lines that \<open>read_count\<close> counts.\<close>

definition nonblank :: "pystr list \<Rightarrow> nat" where
  "nonblank ls = length (filter (\<lambda>l. strip l \<noteq> []) ls)"

text \<open>
  Surroundings in which training succeeds and the API is down, and a later world whose
  feedback log has gained a line.
\<close>

definition offline_env :: env where
  "offline_env = \<lparr>utcnow_decide = 100, utcnow_save = 200,
                   train = Completed (py ''Saved new model to: /m''),
                   trained_folder = Some (py ''v9'', 90),
                   reload = Refused (py ''down''),
                   rmtree_fails = (\<lambda>_. False)\<rparr>"

definition later_world :: world where
  "later_world = \<lparr>feedback_file = Some (py ''{}'' @ [10] @ py ''{}''),
                   state_file = Json \<lparr>last_count = Some 1, last_time = Some 200,
                                      last_model = Some (py ''/m'')\<rparr>,
                   models_dir = None, printed = []\<rparr>"

section \<open>Floating point\<close>

text \<open>
  A Python \<open>float\<close> is an IEEE 754 double. A finite double is a dyadic rational and is
  modelled as a pair \<open>(m, e)\<close> of integers standing for \<open>m * 2 ^ e\<close>; several pairs stand
  for the same number, so doubles are compared with \<open>fle\<close> and \<open>flt\<close>, never with \<open>=\<close>.
  An arithmetic operation computes the exact result and rounds its mantissa to 53
  significant bits, to nearest with ties to even. Infinities, NaN and subnormal numbers
  are outside the model.
\<close>

type_synonym pyfloat = "int \<times> int"

fun bitlength :: "nat \<Rightarrow> nat" where
  "bitlength n = (if n = 0 then 0 else Suc (bitlength (n div 2)))"

declare bitlength.simps [simp del]

definition round53 :: "nat \<Rightarrow> nat" where
  "round53 p =
     (let l = bitlength p
      in if l \<le> 53 then p
         else let s = l - 53;
                  q = p div 2 ^ s;
                  r = p mod 2 ^ s
              in (if 2 * r < 2 ^ s \<or> (2 * r = 2 ^ s \<and> even q) then q else q + 1) * 2 ^ s)"

definition fround :: "pyfloat \<Rightarrow> pyfloat" where
  "fround x = (case x of (m, e) \<Rightarrow> (sgn m * int (round53 (nat \<bar>m\<bar>)), e))"

definition fsub :: "pyfloat \<Rightarrow> pyfloat \<Rightarrow> pyfloat" where
  "fsub x y =
     (case x of (m1, e1) \<Rightarrow> case y of (m2, e2) \<Rightarrow>
        (let e = min e1 e2
         in fround (m1 * 2 ^ nat (e1 - e) - m2 * 2 ^ nat (e2 - e), e)))"

definition fmul :: "pyfloat \<Rightarrow> pyfloat \<Rightarrow> pyfloat" where
  "fmul x y = (case x of (m1, e1) \<Rightarrow> case y of (m2, e2) \<Rightarrow> fround (m1 * m2, e1 + e2))"

definition fle :: "pyfloat \<Rightarrow> pyfloat \<Rightarrow> bool" where
  "fle x y =
     (case x of (m1, e1) \<Rightarrow> case y of (m2, e2) \<Rightarrow>
        (let e = min e1 e2 in m1 * 2 ^ nat (e1 - e) \<le> m2 * 2 ^ nat (e2 - e)))"

definition flt :: "pyfloat \<Rightarrow> pyfloat \<Rightarrow> bool" where
  "flt x y =
     (case x of (m1, e1) \<Rightarrow> case y of (m2, e2) \<Rightarrow>
        (let e = min e1 e2 in m1 * 2 ^ nat (e1 - e) < m2 * 2 ^ nat (e2 - e)))"

text \<open>\<open>float(n)\<close> of an integer, and \<open>int(x)\<close>, which truncates towards zero.\<close>

definition float_of_int :: "int \<Rightarrow> pyfloat" where
  "float_of_int n = fround (n, 0)"

definition int_of_float :: "pyfloat \<Rightarrow> int" where
  "int_of_float x =
     (case x of (m, e) \<Rightarrow>
        if 0 \<le> e then m * 2 ^ nat e else sgn m * (\<bar>m\<bar> div 2 ^ nat (- e)))"

text \<open>The doubles that the literals of the source denote.\<close>

definition f_1_0 :: pyfloat where "f_1_0 = (1, 0)"
definition f_0_1 :: pyfloat where "f_0_1 = (3602879701896397, - 55)"
definition f_0_45 :: pyfloat where "f_0_45 = (8106479329266893, - 54)"
definition f_0_65 :: pyfloat where "f_0_65 = (5854679515581645, - 53)"
definition f_0_50 :: pyfloat where "f_0_50 = (1, - 1)"
definition f_0_9 :: pyfloat where "f_0_9 = (8106479329266893, - 53)"
definition f_0_95 :: pyfloat where "f_0_95 = (4278419646001971, - 52)"
definition f_0_55 :: pyfloat where "f_0_55 = (2476979795053773, - 52)"

section \<open>train.py: building the training set\<close>

definition label2id :: "pystr \<Rightarrow> nat option" where
  "label2id l =
     (if l = py ''NOT_SARCASM'' then Some 0 else if l = py ''SARCASM'' then Some 1 else None)"

definition DISAGREE_DUP :: nat where "DISAGREE_DUP = 3"
definition UNCERT_BAND :: "pyfloat \<times> pyfloat" where "UNCERT_BAND = (f_0_45, f_0_65)"
definition UNCERT_DUP :: nat where "UNCERT_DUP = 2"
definition SEED :: nat where "SEED = 31415"

text \<open>
  A row as \<open>read_feedback\<close> returns it (the dictionary keys \<open>text\<close>, \<open>user\<close>, \<open>pred\<close>,
  \<open>score\<close>; \<open>text\<close> is the field \<open>raw_text\<close>) and a training row (the keys \<open>text\<close> and \<open>label\<close>).
\<close>

record raw_row =
  raw_text :: pystr
  user :: pystr
  pred :: pystr
  score :: pyfloat

record train_row =
  row_text :: pystr
  label :: nat

definition p_sarcasm_from_row :: "raw_row \<Rightarrow> pyfloat" where
  "p_sarcasm_from_row r = (if pred r = py ''SARCASM'' then score r else fsub f_1_0 (score r))"

text \<open>
  The loop of \<open>build_training_rows\<close> with \<open>out\<close> as accumulator; \<open>label2id[r["user"]]\<close>
  raises \<open>KeyError\<close> on an unknown label.
\<close>

fun build_loop :: "raw_row list \<Rightarrow> train_row list \<Rightarrow> error + train_row list" where
  "build_loop [] out = Inr out"
| "build_loop (r # rows) out =
     (case label2id (user r) of
        None \<Rightarrow> Inl (KeyError (user r))
      | Some y \<Rightarrow>
          (let out = out @ [\<lparr>row_text = raw_text r, label = y\<rparr>]
           in if user r \<noteq> pred r
              then build_loop rows
                     (out @ replicate (DISAGREE_DUP - 1) \<lparr>row_text = raw_text r, label = y\<rparr>)
              else (let p = p_sarcasm_from_row r
                    in if fle (fst UNCERT_BAND) p \<and> fle p (snd UNCERT_BAND)
                       then build_loop rows
                              (out @ replicate (UNCERT_DUP - 1) \<lparr>row_text = raw_text r, label = y\<rparr>)
                       else build_loop rows out)))"

definition build_training_rows :: "raw_row list \<Rightarrow> error + train_row list" where
  "build_training_rows rows = build_loop rows []"

subsection \<open>Shuffling and splitting\<close>

text \<open>
  The generator of the \<open>random\<close> module is a parameter: \<open>seed\<close> gives its state after
  \<open>random.seed\<close>, and \<open>randbelow g n\<close> draws a number below \<open>n\<close> and gives the next state.
  \<open>random.shuffle\<close> walks \<open>i\<close> from the last index down to 1 and swaps position \<open>i\<close>
  with a position drawn below \<open>i + 1\<close>.
\<close>

record 'g rng =
  seed :: "nat \<Rightarrow> 'g"
  randbelow :: "'g \<Rightarrow> nat \<Rightarrow> nat \<times> 'g"

fun shuffle_from :: "('g \<Rightarrow> nat \<Rightarrow> nat \<times> 'g) \<Rightarrow> nat \<Rightarrow> 'g \<Rightarrow> 'a list \<Rightarrow> 'a list \<times> 'g" where
  "shuffle_from rb 0 g x = (x, g)"
| "shuffle_from rb (Suc i) g x =
     (case rb g (Suc i + 1) of
        (j, g') \<Rightarrow> shuffle_from rb i g' (x[Suc i := x ! j, j := x ! Suc i]))"

definition shuffle :: "('g \<Rightarrow> nat \<Rightarrow> nat \<times> 'g) \<Rightarrow> 'g \<Rightarrow> 'a list \<Rightarrow> 'a list \<times> 'g" where
  "shuffle rb g x = shuffle_from rb (length x - 1) g x"

text \<open>\<open>n_val = max(1, int(0.1 * n))\<close>, with the product taken in doubles.\<close>

definition n_val_of :: "nat \<Rightarrow> nat" where
  "n_val_of n = nat (max 1 (int_of_float (fmul f_0_1 (float_of_int (int n)))))"

text \<open>
  Steps 1 and 2 of \<open>main\<close>: the rows are built, shuffled with the generator seeded by
  \<open>SEED\<close>, and split into \<open>(val_rows, tr_rows)\<close>.
\<close>

definition split_rows :: "'g rng \<Rightarrow> raw_row list \<Rightarrow> error + (train_row list \<times> train_row list)" where
  "split_rows R raw =
     (case build_training_rows raw of
        Inl e \<Rightarrow> Inl e
      | Inr train_rows \<Rightarrow>
          (let train_rows = fst (shuffle (randbelow R) (seed R SEED) train_rows);
               n = length train_rows;
               n_val = n_val_of n;
               val_rows = take n_val train_rows;
               tr_rows = drop n_val train_rows
           in Inr (val_rows, tr_rows)))"

text \<open>The number of training rows a feedback row stands for.\<close>

definition weight :: "raw_row \<Rightarrow> nat" where
  "weight r =
     (if user r \<noteq> pred r then DISAGREE_DUP
      else if fle (fst UNCERT_BAND) (p_sarcasm_from_row r)
              \<and> fle (p_sarcasm_from_row r) (snd UNCERT_BAND) then UNCERT_DUP
      else 1)"

text \<open>The contract of the generator: a draw below \<open>n\<close> is below \<open>n\<close>.\<close>

definition well_ranged :: "('g \<Rightarrow> nat \<Rightarrow> nat \<times> 'g) \<Rightarrow> bool" where
  "well_ranged rb = (\<forall>g n. 0 < n \<longrightarrow> fst (rb g n) < n)"

text \<open>A small generator and two votes to run the split on.\<close>

definition toy_rng :: "nat rng" where
  "toy_rng = \<lparr>seed = (\<lambda>s. s), randbelow = (\<lambda>g n. (g mod n, g * 7 + 3))\<rparr>"

definition two_votes :: "raw_row list" where
  "two_votes =
     [\<lparr>raw_text = py ''a'', user = py ''SARCASM'', pred = py ''SARCASM'', score = f_0_95\<rparr>,
      \<lparr>raw_text = py ''b'', user = py ''SARCASM'', pred = py ''SARCASM'', score = f_0_55\<rparr>]"

section \<open>app.py: the serving API\<close>

subsection \<open>Feedback\<close>

text \<open>
  The request body \<open>FeedbackIn\<close> (\<open>fb_text\<close> and \<open>fb_score\<close> are its fields \<open>text\<close> and
  \<open>score\<close>); the two label fields are restricted to two literals by the schema.
\<close>

datatype label = SARCASM | NOT_SARCASM

record FeedbackIn =
  url :: "pystr option"
  fb_text :: pystr
  predicted_label :: label
  fb_score :: pyfloat
  user_label :: label





text \<open>
  \<open>s.encode("utf-8")\<close> raises \<open>UnicodeEncodeError\<close> when the string holds a surrogate
  code point.
\<close>

definition encodable :: "pystr \<Rightarrow> bool" where
  "encodable s = (\<forall>c\<in>set s. c < 55296 \<or> 57343 < c)"

definition hash_input :: "FeedbackIn \<Rightarrow> pystr" where
  "hash_input fb = (case url fb of None \<Rightarrow> [] | Some u \<Rightarrow> u) @ py ''||'' @ strip (fb_text fb)"








text \<open>
  A vote used in the examples, a vote whose text is a lone surrogate, and a stand-in for
  the \<open>json\<close> module that writes a brace and the id.
\<close>

definition sample_vote :: FeedbackIn where
  "sample_vote = \<lparr>url = Some (py ''a''), fb_text = py '' b '', predicted_label = NOT_SARCASM,
                   fb_score = f_0_9, user_label = SARCASM\<rparr>"



subsection \<open>Prediction\<close>

definition THRESHOLD :: pyfloat where "THRESHOLD = f_0_50"

definition LABEL_MAP :: "(pystr \<times> pystr) list" where
  "LABEL_MAP =
     [(py ''LABEL_0'', py ''NOT_SARCASM''), (py ''LABEL_1'', py ''SARCASM''),
      (py ''0'', py ''NOT_SARCASM''), (py ''1'', py ''SARCASM''),
      (py ''sarcastic'', py ''SARCASM''), (py ''non-sarcastic'', py ''NOT_SARCASM'')]"

text \<open>One output of the classifier: \<open>o["label"]\<close> and \<open>o["score"]\<close>.\<close>

record clf_output =
  out_label :: pystr
  out_score :: pyfloat

text \<open>\<open>LABEL_MAP.get(raw, raw)\<close>.\<close>

definition mapped_label :: "pystr \<Rightarrow> pystr" where
  "mapped_label raw = (case map_of LABEL_MAP raw of None \<Rightarrow> raw | Some m \<Rightarrow> m)"

text \<open>
  The state the handler updates besides its response: the request counter, the recorded
  confidences, the two threshold counters and the lines of \<open>predictions.jsonl\<close> (text,
  label, score). The latency measurements are left out.
\<close>

record serving =
  req_count :: nat
  confidences :: "pyfloat list"
  crossings_sarcasm :: nat
  crossings_non_sarcasm :: nat
  predictions_log :: "(pystr \<times> pystr \<times> pyfloat) list"

text \<open>
  One round of the loop appends to the response lists, updates the counters and writes
  the line to \<open>predictions.jsonl\<close>; the write encodes the stripped text as UTF-8 and
  raises on a surrogate, which ends the request without a response.
\<close>

fun predict_loop ::
  "(pystr \<times> clf_output) list \<Rightarrow> pystr list \<Rightarrow> pyfloat list \<Rightarrow> serving
   \<Rightarrow> (error + (pystr list \<times> pyfloat list)) \<times> serving" where
  "predict_loop [] labels scores st = (Inr (labels, scores), st)"
| "predict_loop ((txt, out) # rest) labels scores st =
     (let raw = out_label out;
          score = out_score out;
          mapped = mapped_label raw;
          mapped = (if mapped = py ''SARCASM'' \<and> flt score THRESHOLD
                    then py ''NOT_SARCASM'' else mapped);
          labels = labels @ [mapped];
          scores = scores @ [score];
          st = st\<lparr>confidences := confidences st @ [score]\<rparr>;
          st = (if mapped = py ''SARCASM''
                then st\<lparr>crossings_sarcasm := crossings_sarcasm st + 1\<rparr>
                else st\<lparr>crossings_non_sarcasm := crossings_non_sarcasm st + 1\<rparr>)
      in if encodable (strip txt)
         then predict_loop rest labels scores
                (st\<lparr>predictions_log := predictions_log st @ [(strip txt, mapped, score)]\<rparr>)
         else (Inl UnicodeEncodeError, st))"

text \<open>The classifier pipeline is the parameter \<open>clf\<close>.\<close>

definition predict ::
  "(pystr list \<Rightarrow> clf_output list) \<Rightarrow> pystr list \<Rightarrow> serving
   \<Rightarrow> (error + (pystr list \<times> pyfloat list)) \<times> serving" where
  "predict clf texts st =
     (let outputs = clf texts;
          st = st\<lparr>req_count := req_count st + 1\<rparr>
      in predict_loop (zip texts outputs) [] [] st)"

text \<open>The label the handler returns for one classifier output.\<close>

definition served_label :: "clf_output \<Rightarrow> pystr" where
  "served_label out =
     (if mapped_label (out_label out) = py ''SARCASM'' \<and> flt (out_score out) THRESHOLD
      then py ''NOT_SARCASM'' else mapped_label (out_label out))"





definition retyped_vote :: FeedbackIn where
  "retyped_vote = sample_vote\<lparr>fb_text := py ''b'', user_label := NOT_SARCASM\<rparr>"

text \<open>A fresh server state and a stand-in classifier that is unsure about short texts.\<close>

definition fresh_serving :: serving where
  "fresh_serving = \<lparr>req_count = 0, confidences = [], crossings_sarcasm = 0,
                     crossings_non_sarcasm = 0, predictions_log = []\<rparr>"

definition toy_clf :: "pystr list \<Rightarrow> clf_output list" where
  "toy_clf texts =
     map (\<lambda>t. \<lparr>out_label = py ''LABEL_1'',
                out_score = (if length t < 3 then f_0_45 else f_0_9)\<rparr>) texts"

section \<open>Properties of the retraining job\<close>

text \<open>
  C1. The scheduler decision is true exactly when the total reaches \<open>MIN_TOTAL\<close> and
  either the votes gained since the last run reach \<open>MIN_NEW\<close> or the time since the
  last run reaches \<open>COOLDOWN\<close>. With the default knobs: 29 votes never train; 30 votes
  with a last count of 0 and a last run one hour ago train; 35 votes with a last count
  of 30 and a last run one hour ago do not.
\<close>

theorem should_train_decision:
  "should_train cfg now tot state
     = (tot \<ge> MIN_TOTAL cfg
        \<and> (tot - get_last_count state \<ge> MIN_NEW cfg \<or> now - get_last_time state \<ge> COOLDOWN cfg))
   \<and> should_train default_policy now 29 state = False
   \<and> should_train default_policy now 30
        \<lparr>last_count = Some 0, last_time = Some (now - hours 1), last_model = m\<rparr> = True
   \<and> should_train default_policy now 35
        \<lparr>last_count = Some 30, last_time = Some (now - hours 1), last_model = m\<rparr> = False"
  by (auto simp: should_train_def default_policy_def hours_def Let_def
        get_last_count_def get_last_time_def)

subsection \<open>The success marker\<close>

lemma py_simps: "py [] = []" "py (c # cs) = of_char c # py cs"
  by (simp_all add: py_def)

lemma dot_plus_None: "dot_plus s = None \<longleftrightarrow> (s = [] \<or> hd s = 10)"
  by (cases s) (auto simp: dot_plus_def Let_def)

lemma tail_ok_Nil: "\<not> tail_ok []"
  by (simp add: tail_ok_def)

lemma tail_ok_Cons: "tail_ok (c # cs) \<longleftrightarrow> c \<noteq> 10 \<or> (is_space c \<and> tail_ok cs)"
proof
  assume "tail_ok (c # cs)"
  then obtain ws d rest where d: "c # cs = ws @ d # rest" "\<forall>x\<in>set ws. is_space x" "d \<noteq> 10"
    by (auto simp: tail_ok_def)
  show "c \<noteq> 10 \<or> (is_space c \<and> tail_ok cs)"
  proof (cases ws)
    case Nil
    with d show ?thesis by simp
  next
    case (Cons w ws')
    with d have "is_space c" "cs = ws' @ d # rest" "\<forall>x\<in>set ws'. is_space x" by auto
    with d(3) show ?thesis unfolding tail_ok_def by blast
  qed
next
  assume a: "c \<noteq> 10 \<or> (is_space c \<and> tail_ok cs)"
  show "tail_ok (c # cs)"
  proof (cases "c \<noteq> 10")
    case True
    then have "c # cs = [] @ c # cs \<and> (\<forall>x\<in>set []. is_space x) \<and> c \<noteq> 10" by simp
    then show ?thesis unfolding tail_ok_def by blast
  next
    case False
    with a obtain ws d rest where d: "is_space c" "cs = ws @ d # rest" "\<forall>x\<in>set ws. is_space x" "d \<noteq> 10"
      by (auto simp: tail_ok_def)
    then have "c # cs = (c # ws) @ d # rest \<and> (\<forall>x\<in>set (c # ws). is_space x) \<and> d \<noteq> 10" by simp
    then show ?thesis unfolding tail_ok_def by blast
  qed
qed

lemma is_space_newline: "is_space 10"
  by (simp add: is_space_def)

lemma ws_then_group_None: "ws_then_group s = None \<longleftrightarrow> \<not> tail_ok s"
proof (induction s)
  case Nil
  then show ?case by (simp add: tail_ok_Nil)
next
  case (Cons c cs)
  show ?case
  proof (cases "is_space c")
    case True
    then show ?thesis using Cons
      by (auto simp: tail_ok_Cons dot_plus_None split: option.splits)
  next
    case False
    then have "c \<noteq> 10" using is_space_newline by auto
    with False show ?thesis by (simp add: tail_ok_Cons dot_plus_None)
  qed
qed

lemma match_here_None:
  "match_here s = None \<longleftrightarrow> \<not> (\<exists>t. s = saved_marker @ t \<and> tail_ok t)"
  by (auto simp: match_here_def ws_then_group_None prefix_def)

lemma has_marker_alt: "has_marker out \<longleftrightarrow> (\<exists>pre t. out = pre @ saved_marker @ t \<and> tail_ok t)"
  unfolding has_marker_def tail_ok_def by blast

lemma saved_marker_nonempty: "saved_marker \<noteq> []"
  by (simp add: saved_marker_def py_def)

lemma has_marker_Nil: "\<not> has_marker []"
  by (simp add: has_marker_alt saved_marker_nonempty)

lemma has_marker_Cons:
  "has_marker (c # cs) \<longleftrightarrow> (\<exists>t. c # cs = saved_marker @ t \<and> tail_ok t) \<or> has_marker cs"
proof
  assume "has_marker (c # cs)"
  then obtain pre t where p: "c # cs = pre @ saved_marker @ t" "tail_ok t"
    by (auto simp: has_marker_alt)
  show "(\<exists>t. c # cs = saved_marker @ t \<and> tail_ok t) \<or> has_marker cs"
  proof (cases pre)
    case Nil
    with p show ?thesis by auto
  next
    case (Cons a pre')
    with p have "cs = pre' @ saved_marker @ t" by simp
    with p(2) show ?thesis unfolding has_marker_alt by blast
  qed
next
  assume "(\<exists>t. c # cs = saved_marker @ t \<and> tail_ok t) \<or> has_marker cs"
  then show "has_marker (c # cs)"
  proof
    assume "\<exists>t. c # cs = saved_marker @ t \<and> tail_ok t"
    then obtain t where "c # cs = [] @ saved_marker @ t" "tail_ok t" by auto
    then show ?thesis unfolding has_marker_alt by blast
  next
    assume "has_marker cs"
    then obtain pre t where "cs = pre @ saved_marker @ t" "tail_ok t"
      by (auto simp: has_marker_alt)
    then have "c # cs = (c # pre) @ saved_marker @ t" by simp
    with \<open>tail_ok t\<close> show ?thesis unfolding has_marker_alt by blast
  qed
qed

lemma re_search_None: "re_search out = None \<longleftrightarrow> \<not> has_marker out"
proof (induction out)
  case Nil
  then show ?case by (simp add: has_marker_Nil)
next
  case (Cons c cs)
  then show ?case
    using match_here_None [of "c # cs"]
    by (auto simp: has_marker_Cons split: option.splits)
qed

subsection \<open>Runs that do not promote\<close>

lemma state_file_put [simp]: "state_file (put l w) = state_file w"
  by (simp add: put_def)

lemma models_dir_put [simp]: "models_dir (put l w) = models_dir w"
  by (simp add: put_def)

lemma feedback_file_put [simp]: "feedback_file (put l w) = feedback_file w"
  by (simp add: put_def)

lemma printed_put [simp]: "printed (put l w) = printed w @ [l]"
  by (simp add: put_def)

lemma train_py_effect_state_file [simp]: "state_file (train_py_effect made w) = state_file w"
  by (simp add: train_py_effect_def split: option.splits prod.splits)

lemma train_py_effect_feedback_file [simp]:
  "feedback_file (train_py_effect made w) = feedback_file w"
  by (simp add: train_py_effect_def split: option.splits prod.splits)

lemma run_train_state_file: "state_file (snd (run_train tr made w)) = state_file w"
  by (simp add: run_train_def Let_def split: train_run.splits option.splits)

lemma run_train_fails:
  "tr = Raised e \<or> (tr = Completed out \<and> \<not> has_marker out) \<Longrightarrow>
   \<exists>err. fst (run_train tr made w) = Inl err"
  using re_search_None [of out]
  by (auto simp: run_train_def Let_def split: train_run.splits option.splits)

lemma main_unpromoted_state_file:
  "(\<forall>p. fst (main cfg ev w) \<noteq> Promoted p) \<Longrightarrow> state_file (snd (main cfg ev w)) = state_file w"
  using run_train_state_file [of "train ev" "trained_folder ev" "put (Status (read_count (feedback_file w))
      (the (last_count (load_state (state_file w)))) (the (last_time (load_state (state_file w))))) w"]
  by (auto simp: main_def Let_def split: option.splits prod.splits sum.splits if_splits)

text \<open>
  C2. When the training subprocess raises, or its output carries no success marker, a run
  that reached the training step ends in an error and the state file is what it was
  before the run.
\<close>

theorem failed_training_keeps_state:
  assumes "train ev = Raised e \<or> (train ev = Completed out \<and> \<not> has_marker out)"
    and "reaches_training cfg ev w"
  shows "(\<exists>err. fst (main cfg ev w) = Crashed err)
         \<and> state_file (snd (main cfg ev w)) = state_file w"
proof -
  obtain lc lt where k: "last_count (load_state (state_file w)) = Some lc"
      "last_time (load_state (state_file w)) = Some lt"
    and st: "should_train cfg (utcnow_decide ev) (read_count (feedback_file w)) (load_state (state_file w))"
    using assms(2) by (auto simp: reaches_training_def Let_def)
  let ?w1 = "put (Status (read_count (feedback_file w)) lc lt) w"
  obtain err where e: "fst (run_train (train ev) (trained_folder ev) ?w1) = Inl err"
    using run_train_fails [OF assms(1), of "trained_folder ev" ?w1] by blast
  then obtain w2 where r: "run_train (train ev) (trained_folder ev) ?w1 = (Inl err, w2)"
    by (cases "run_train (train ev) (trained_folder ev) ?w1") auto
  have c: "fst (main cfg ev w) = Crashed err"
    using k st r by (simp add: main_def Let_def)
  then have "\<forall>p. fst (main cfg ev w) \<noteq> Promoted p" by simp
  then have "state_file (snd (main cfg ev w)) = state_file w"
    by (rule main_unpromoted_state_file)
  with c show ?thesis by blast
qed

theorem failed_training_keeps_state_witness:
  "reaches_training (policy_of_env True) broken_env smoke_world
   \<and> \<not> has_marker (py ''Killed'')
   \<and> (\<exists>err. fst (main (policy_of_env True) broken_env smoke_world) = Crashed err)
   \<and> state_file (snd (main (policy_of_env True) broken_env smoke_world)) = Missing"
proof -
  have "re_search (py ''Killed'') = None"
    by (simp add: py_simps match_here_def saved_marker_def)
  then have m: "\<not> has_marker (py ''Killed'')"
    by (simp add: re_search_None)
  have r: "reaches_training (policy_of_env True) broken_env smoke_world"
    by (simp add: reaches_training_def policy_of_env_def default_policy_def broken_env_def
        smoke_world_def load_state_def default_state_def should_train_def get_last_count_def
        get_last_time_def read_count_def splitlines_def py_simps is_linebreak_def strip_def
        is_space_def)
  have t: "train broken_env = Raised [] \<or>
      (train broken_env = Completed (py ''Killed'') \<and> \<not> has_marker (py ''Killed''))"
    using m by (simp add: broken_env_def)
  have s: "state_file smoke_world = Missing"
    by (simp add: smoke_world_def)
  show ?thesis
    using failed_training_keeps_state [OF t r] m r s by simp
qed

subsection \<open>Pruning\<close>

lemma rmtree_models_dir:
  "models_dir (rmtree fails p w) =
     map_option (filter (\<lambda>e. fails (name p) \<or> name p \<noteq> name e)) (models_dir w)"
  by (cases "models_dir w") (auto simp: rmtree_def put_def intro!: filter_cong)

lemma fold_rmtree_models_dir:
  "models_dir (fold (rmtree fails) ps w) =
     map_option (filter (\<lambda>e. \<forall>p\<in>set ps. fails (name p) \<or> name p \<noteq> name e)) (models_dir w)"
proof (induction ps arbitrary: w)
  case Nil
  then show ?case by (simp add: option.map_ident)
next
  case (Cons p ps)
  have "models_dir (fold (rmtree fails) (p # ps) w) =
        map_option (filter (\<lambda>e. \<forall>p\<in>set ps. fails (name p) \<or> name p \<noteq> name e))
          (models_dir (rmtree fails p w))"
    by (simp add: Cons)
  also have "\<dots> = map_option (filter (\<lambda>e. \<forall>p\<in>set (p # ps). fails (name p) \<or> name p \<noteq> name e))
          (models_dir w)"
    by (cases "models_dir w") (auto simp: rmtree_models_dir intro!: filter_cong)
  finally show ?case .
qed

lemma rmtree_printed: "printed (rmtree fails p w) = printed w @ [prune_note fails p]"
  by (simp add: rmtree_def put_def prune_note_def)

lemma rmtree_state_file: "state_file (rmtree fails p w) = state_file w"
  by (simp add: rmtree_def put_def)

lemma rmtree_feedback_file: "feedback_file (rmtree fails p w) = feedback_file w"
  by (simp add: rmtree_def put_def)

lemma fold_rmtree_printed:
  "printed (fold (rmtree fails) ps w) = printed w @ map (prune_note fails) ps"
  by (induction ps arbitrary: w) (simp_all add: rmtree_printed)

lemma fold_rmtree_state_file: "state_file (fold (rmtree fails) ps w) = state_file w"
  by (induction ps arbitrary: w) (simp_all add: rmtree_state_file)

lemma fold_rmtree_feedback_file: "feedback_file (fold (rmtree fails) ps w) = feedback_file w"
  by (induction ps arbitrary: w) (simp_all add: rmtree_feedback_file)

lemma rank_in_sorted:
  fixes f :: "'a \<Rightarrow> rat"
  assumes s: "sorted (map (\<lambda>p. - f p) ys)" and d: "distinct (map f ys)" and i: "i < length ys"
  shows "card {q \<in> set ys. f (ys ! i) < f q} = i"
proof -
  have dy: "distinct ys" using d by (simp add: distinct_map)
  have "{q \<in> set ys. f (ys ! i) < f q} = set (take i ys)"
  proof (intro set_eqI iffI)
    fix q assume "q \<in> {q \<in> set ys. f (ys ! i) < f q}"
    then obtain j where j: "j < length ys" "q = ys ! j" "f (ys ! i) < f (ys ! j)"
      by (auto simp: in_set_conv_nth)
    have "j < i"
    proof (rule ccontr)
      assume "\<not> j < i"
      then have "i \<le> j" by simp
      then have "(map (\<lambda>p. - f p) ys) ! i \<le> (map (\<lambda>p. - f p) ys) ! j"
        by (rule sorted_nth_mono [OF s]) (simp add: j(1))
      then have "f (ys ! j) \<le> f (ys ! i)" using j(1) i by simp
      then show False using j(3) by simp
    qed
    then show "q \<in> set (take i ys)"
      using j i by (auto simp: in_set_conv_nth)
  next
    fix q assume "q \<in> set (take i ys)"
    then obtain j where j: "j < i" "q = ys ! j"
      using i by (auto simp: in_set_conv_nth)
    have ji: "j \<le> i" "j < length ys" using j(1) i by simp_all
    have "(map (\<lambda>p. - f p) ys) ! j \<le> (map (\<lambda>p. - f p) ys) ! i"
      by (rule sorted_nth_mono [OF s ji(1)]) (simp add: i)
    then have le: "f (ys ! i) \<le> f (ys ! j)" using ji(2) i by simp
    have "map f ys ! i \<noteq> map f ys ! j"
      using d j(1) i ji(2) unfolding distinct_conv_nth by auto
    then have "f (ys ! i) \<noteq> f (ys ! j)" using i ji(2) by simp
    with le have "f (ys ! i) < f (ys ! j)" by simp
    then show "q \<in> {q \<in> set ys. f (ys ! i) < f q}"
      using j i by simp
  qed
  moreover have "card (set (take i ys)) = i"
  proof -
    have "distinct (take i ys)" using dy by simp
    then have "card (set (take i ys)) = length (take i ys)" by (rule distinct_card)
    then show ?thesis using i by simp
  qed
  ultimately show ?thesis by simp
qed

lemma in_set_drop_nth:
  "x \<in> set (drop k ys) \<longleftrightarrow> (\<exists>i. k \<le> i \<and> i < length ys \<and> x = ys ! i)"
proof
  assume "x \<in> set (drop k ys)"
  then obtain j where j: "j < length (drop k ys)" "x = drop k ys ! j"
    by (auto simp: in_set_conv_nth)
  then have "k \<le> k + j \<and> k + j < length ys \<and> x = ys ! (k + j)" by auto
  then show "\<exists>i. k \<le> i \<and> i < length ys \<and> x = ys ! i" by blast
next
  assume "\<exists>i. k \<le> i \<and> i < length ys \<and> x = ys ! i"
  then obtain i where i: "k \<le> i" "i < length ys" "x = ys ! i" by blast
  then have "i - k < length (drop k ys)" "drop k ys ! (i - k) = x" by auto
  then show "x \<in> set (drop k ys)" using nth_mem by blast
qed

lemma drop_sorted_by_rank:
  fixes f :: "'a \<Rightarrow> rat"
  assumes d: "distinct (map f xs)"
  shows "set (drop k (sort_key (\<lambda>p. - f p) xs)) = {p \<in> set xs. k \<le> card {q \<in> set xs. f p < f q}}"
proof -
  define ys where "ys = sort_key (\<lambda>p. - f p) xs"
  have s: "sorted (map (\<lambda>p. - f p) ys)" by (simp add: ys_def)
  have m: "mset ys = mset xs" by (simp add: ys_def)
  have sy: "set ys = set xs" by (simp add: ys_def)
  have "mset (map f ys) = mset (map f xs)" using m by simp
  then have "distinct (map f ys) \<longleftrightarrow> distinct (map f xs)" by (rule mset_eq_imp_distinct_iff)
  then have dy: "distinct (map f ys)" using d by blast
  have r: "card {q \<in> set xs. f (ys ! i) < f q} = i" if "i < length ys" for i
    using rank_in_sorted [OF s dy that] sy by simp
  have "set (drop k ys) = {p \<in> set xs. k \<le> card {q \<in> set xs. f p < f q}}"
  proof (intro set_eqI iffI)
    fix p assume "p \<in> set (drop k ys)"
    then obtain i where i: "k \<le> i" "i < length ys" "p = ys ! i"
      unfolding in_set_drop_nth by blast
    have "p \<in> set xs" using i(2,3) sy nth_mem by blast
    moreover have "k \<le> card {q \<in> set xs. f p < f q}"
      using r [OF i(2)] i(1,3) by simp
    ultimately show "p \<in> {p \<in> set xs. k \<le> card {q \<in> set xs. f p < f q}}" by simp
  next
    fix p assume "p \<in> {p \<in> set xs. k \<le> card {q \<in> set xs. f p < f q}}"
    then have p: "p \<in> set ys" "k \<le> card {q \<in> set xs. f p < f q}" using sy by auto
    then obtain i where i: "i < length ys" "p = ys ! i" by (auto simp: in_set_conv_nth)
    with r [OF i(1)] p have "k \<le> i" by simp
    then show "p \<in> set (drop k ys)"
      unfolding in_set_drop_nth using i by blast
  qed
  then show ?thesis by (simp add: ys_def)
qed

lemma prune_old_models_printed:
  "models_dir w = Some entries \<Longrightarrow>
   printed (prune_old_models keep fails w) =
     printed w @ map (prune_note fails) (drop keep (sort_key (\<lambda>p. - mtime p) (filter is_dir entries)))"
  by (simp add: prune_old_models_def fold_rmtree_printed)

lemma prune_old_models_state_file: "state_file (prune_old_models keep fails w) = state_file w"
  by (simp add: prune_old_models_def fold_rmtree_state_file split: option.splits)

lemma prune_old_models_feedback_file:
  "feedback_file (prune_old_models keep fails w) = feedback_file w"
  by (simp add: prune_old_models_def fold_rmtree_feedback_file split: option.splits)

lemma victims_beyond_newest:
  assumes dn: "distinct (map name entries)"
    and dm: "distinct (map mtime (filter is_dir entries))"
  shows "set (drop keep (sort_key (\<lambda>p. - mtime p) (filter is_dir entries)))
         = {e \<in> set entries. beyond_newest keep entries e}"
proof -
  have de: "distinct entries" using dn by (simp add: distinct_map)
  have c: "card {q \<in> set (filter is_dir entries). mtime e < mtime q}
           = length (filter (\<lambda>q. is_dir q \<and> mtime e < mtime q) entries)" for e
  proof -
    have eq: "{q \<in> set (filter is_dir entries). mtime e < mtime q}
          = set (filter (\<lambda>q. is_dir q \<and> mtime e < mtime q) entries)" by auto
    have "distinct (filter (\<lambda>q. is_dir q \<and> mtime e < mtime q) entries)"
      using de by simp
    then have "card (set (filter (\<lambda>q. is_dir q \<and> mtime e < mtime q) entries))
          = length (filter (\<lambda>q. is_dir q \<and> mtime e < mtime q) entries)"
      by (rule distinct_card)
    then show ?thesis unfolding eq .
  qed
  show ?thesis
    unfolding drop_sorted_by_rank [OF dm] c by (auto simp: beyond_newest_def)
qed

text \<open>
  C7. When the folders of the models directory have distinct modification times, pruning
  removes exactly the folders beyond the newest \<open>keep\<close>, except those whose deletion
  fails; a failed deletion is printed and the loop goes on to the remaining folders. Of
  seven folders with \<open>KEEP_LAST = 5\<close> the two oldest go and the five newest stay.
\<close>

theorem prune_keeps_newest:
  assumes md: "models_dir w = Some entries"
    and dn: "distinct (map name entries)"
    and dm: "distinct (map mtime (filter is_dir entries))"
  shows "models_dir (prune_old_models keep fails w)
           = Some (filter (\<lambda>e. \<not> (beyond_newest keep entries e \<and> \<not> fails (name e))) entries)
         \<and> (\<forall>e\<in>set entries. beyond_newest keep entries e \<longrightarrow>
               prune_note fails e \<in> set (printed (prune_old_models keep fails w)))
         \<and> state_file (prune_old_models keep fails w) = state_file w"
proof -
  let ?victims = "drop keep (sort_key (\<lambda>p. - mtime p) (filter is_dir entries))"
  have v: "set ?victims = {e \<in> set entries. beyond_newest keep entries e}"
    by (rule victims_beyond_newest [OF dn dm])
  have inj: "inj_on name (set entries)" using dn by (simp add: distinct_map)
  have "models_dir (prune_old_models keep fails w)
        = Some (filter (\<lambda>e. \<forall>p\<in>set ?victims. fails (name p) \<or> name p \<noteq> name e) entries)"
    using md by (simp add: prune_old_models_def fold_rmtree_models_dir)
  also have "filter (\<lambda>e. \<forall>p\<in>set ?victims. fails (name p) \<or> name p \<noteq> name e) entries
        = filter (\<lambda>e. \<not> (beyond_newest keep entries e \<and> \<not> fails (name e))) entries"
  proof (rule filter_cong [OF refl])
    fix e assume e: "e \<in> set entries"
    show "(\<forall>p\<in>set ?victims. fails (name p) \<or> name p \<noteq> name e)
          = (\<not> (beyond_newest keep entries e \<and> \<not> fails (name e)))"
      unfolding v using e inj by (auto dest: inj_onD)
  qed
  finally have 1: "models_dir (prune_old_models keep fails w)
           = Some (filter (\<lambda>e. \<not> (beyond_newest keep entries e \<and> \<not> fails (name e))) entries)" .
  have 2: "\<forall>e\<in>set entries. beyond_newest keep entries e \<longrightarrow>
               prune_note fails e \<in> set (printed (prune_old_models keep fails w))"
    unfolding prune_old_models_printed [OF md] using v by auto
  show ?thesis using 1 2 prune_old_models_state_file by blast
qed

theorem prune_keeps_newest_witness:
  "models_dir models_world = Some seven_models
   \<and> distinct (map name seven_models)
   \<and> distinct (map mtime (filter is_dir seven_models))
   \<and> models_dir (prune_old_models 5 (\<lambda>_. False) models_world)
       = Some [mk_entry ''v2'' True 70, mk_entry ''v3'' True 30, mk_entry ''log'' False 5,
               mk_entry ''v5'' True 60, mk_entry ''v6'' True 50, mk_entry ''v7'' True 40]
   \<and> models_dir (prune_old_models 5 (\<lambda>n. n = py ''v1'') models_world)
       = Some [mk_entry ''v1'' True 10, mk_entry ''v2'' True 70, mk_entry ''v3'' True 30,
               mk_entry ''log'' False 5, mk_entry ''v5'' True 60, mk_entry ''v6'' True 50,
               mk_entry ''v7'' True 40]
   \<and> FailedToPrune (py ''v1'') \<in> set (printed (prune_old_models 5 (\<lambda>n. n = py ''v1'') models_world))"
proof -
  have h1: "models_dir models_world = Some seven_models"
    by (simp add: models_world_def)
  have h2: "distinct (map name seven_models)"
    by (simp add: seven_models_def mk_entry_def py_simps)
  have h3: "distinct (map mtime (filter is_dir seven_models))"
    by (simp add: seven_models_def mk_entry_def)
  have a: "models_dir (prune_old_models 5 (\<lambda>_. False) models_world)
       = Some [mk_entry ''v2'' True 70, mk_entry ''v3'' True 30, mk_entry ''log'' False 5,
               mk_entry ''v5'' True 60, mk_entry ''v6'' True 50, mk_entry ''v7'' True 40]"
    using prune_keeps_newest [OF h1 h2 h3, of 5 "\<lambda>_. False"]
    by (simp add: seven_models_def mk_entry_def beyond_newest_def)
  have c: "models_dir (prune_old_models 5 (\<lambda>n. n = py ''v1'') models_world)
       = Some [mk_entry ''v1'' True 10, mk_entry ''v2'' True 70, mk_entry ''v3'' True 30,
               mk_entry ''log'' False 5, mk_entry ''v5'' True 60, mk_entry ''v6'' True 50,
               mk_entry ''v7'' True 40]
     \<and> FailedToPrune (py ''v1'') \<in> set (printed (prune_old_models 5 (\<lambda>n. n = py ''v1'') models_world))"
    using prune_keeps_newest [OF h1 h2 h3, of 5 "\<lambda>n. n = py ''v1''"]
    by (simp add: seven_models_def mk_entry_def beyond_newest_def prune_note_def py_simps)
  show ?thesis using h1 h2 h3 a c by blast
qed

subsection \<open>Counting lines of a growing log\<close>

lemma strip_Nil_iff: "strip s = [] \<longleftrightarrow> (\<forall>x\<in>set s. is_space x)"
proof
  assume a: "strip s = []"
  then have "dropWhile is_space (rev (dropWhile is_space s)) = []" by (simp add: strip_def)
  then have "\<forall>x\<in>set (rev (dropWhile is_space s)). is_space x"
    by (simp add: dropWhile_eq_Nil_conv)
  then have b: "\<forall>x\<in>set (dropWhile is_space s). is_space x" by simp
  have "dropWhile is_space s = []"
  proof (cases "dropWhile is_space s")
    case Nil
    then show ?thesis .
  next
    case (Cons y ys)
    then have "\<not> is_space y" using hd_dropWhile [of is_space s] by simp
    moreover have "is_space y" using b Cons by simp
    ultimately show ?thesis by simp
  qed
  then show "\<forall>x\<in>set s. is_space x" unfolding dropWhile_eq_Nil_conv .
next
  assume "\<forall>x\<in>set s. is_space x"
  then show "strip s = []" by (auto simp: strip_def dest: set_dropWhileD)
qed

lemma nonblank_simps [simp]:
  "nonblank [] = 0"
  "nonblank (l # ls) = (if strip l \<noteq> [] then 1 else 0) + nonblank ls"
  by (simp_all add: nonblank_def)

lemma strip_snoc: "strip cur \<noteq> [] \<Longrightarrow> strip (cur @ [c]) \<noteq> []"
  by (auto simp: strip_Nil_iff)

lemma is_linebreak_cr: "is_linebreak 13"
  by (simp add: is_linebreak_def)

lemma splitlines_from_open_line:
  "strip cur \<noteq> [] \<Longrightarrow> 1 \<le> nonblank (splitlines_from cur ys)"
proof (induction cur ys rule: splitlines_from.induct)
  case (1 cur)
  then show ?case by (auto simp: strip_def)
next
  case (2 cur c)
  then show ?case by (auto simp: strip_snoc)
next
  case (3 cur c d ds)
  then show ?case by (auto simp: strip_snoc)
qed

lemma splitlines_from_open_line':
  "(if strip cur \<noteq> [] then 1 else 0) \<le> nonblank (splitlines_from cur ys)"
  using splitlines_from_open_line [of cur ys] by simp

lemma splitlines_from_append:
  "nonblank (splitlines_from cur xs) \<le> nonblank (splitlines_from cur (xs @ ys))"
proof (induction cur xs rule: splitlines_from.induct)
  case (1 cur)
  show ?case using splitlines_from_open_line' [of cur ys] by (auto simp: strip_Nil_iff)
next
  case (2 cur c)
  show ?case
  proof (cases ys)
    case Nil
    then show ?thesis by simp
  next
    case (Cons d ds)
    show ?thesis
      using splitlines_from_open_line' [of "cur @ [c]" "d # ds"]
      by (auto simp: Cons is_linebreak_cr)
  qed
next
  case (3 cur c d ds)
  then show ?case by simp
qed

lemma read_count_nonneg: "0 \<le> read_count f"
  by (simp add: read_count_def split: option.splits)

lemma read_count_appended: "appended f f' \<Longrightarrow> read_count f \<le> read_count f'"
proof (cases f)
  case None
  then show ?thesis using read_count_nonneg [of f'] by (simp add: read_count_def)
next
  case (Some t)
  assume "appended f f'"
  then obtain more where "f' = Some (t @ more)"
    using Some by (auto simp: appended_def prefix_def split: option.splits)
  then show ?thesis
    using Some splitlines_from_append [of "[]" t more]
    by (simp add: read_count_def splitlines_def nonblank_def)
qed

subsection \<open>Runs that promote\<close>

lemma prune_old_models_models_dir_cong:
  "models_dir w = models_dir w' \<Longrightarrow>
   models_dir (prune_old_models keep fails w) = models_dir (prune_old_models keep fails w')"
  by (simp add: prune_old_models_def fold_rmtree_models_dir split: option.splits)

lemma prune_old_models_keeps_printed:
  "set (printed w) \<subseteq> set (printed (prune_old_models keep fails w))"
  by (simp add: prune_old_models_def fold_rmtree_printed split: option.splits)

lemma reload_api_models_dir: "models_dir (reload_api reply path w) = models_dir w"
  by (simp add: reload_api_def split: reload_reply.splits)

lemma reload_api_refused: "ReloadWarning e \<in> set (printed (reload_api (Refused e) path w))"
  by (simp add: reload_api_def)

lemma train_py_effect_printed [simp]: "printed (train_py_effect made w) = printed w"
  by (simp add: train_py_effect_def split: option.splits prod.splits)

lemma train_py_effect_models_dir_cong:
  "models_dir w = models_dir w' \<Longrightarrow>
   models_dir (train_py_effect made w) = models_dir (train_py_effect made w')"
  by (simp add: train_py_effect_def split: option.splits prod.splits)

lemma run_train_completed:
  "re_search out = Some g \<Longrightarrow>
   run_train (Completed out) made w
   = (Inr (strip g), put (TrainOutput out) (train_py_effect made w))"
  by (simp add: run_train_def Let_def)

lemma main_promotes:
  assumes r: "reaches_training cfg ev w"
    and t: "train ev = Completed out"
    and g: "re_search out = Some g"
  shows "\<exists>lc lt. main cfg ev w =
     (Promoted (strip g),
      put (PromotedNote (strip g))
        (save_state
          ((load_state (state_file w))\<lparr>last_count := Some (read_count (feedback_file w)),
              last_time := Some (utcnow_save ev), last_model := Some (strip g)\<rparr>)
          (prune_old_models (KEEP_LAST cfg) (rmtree_fails ev)
            (reload_api (reload ev) (strip g)
              (put (TrainOutput out)
                (train_py_effect (trained_folder ev)
                  (put (Status (read_count (feedback_file w)) lc lt) w)))))))"
proof -
  obtain lc lt where k: "last_count (load_state (state_file w)) = Some lc"
      "last_time (load_state (state_file w)) = Some lt"
    and st: "should_train cfg (utcnow_decide ev) (read_count (feedback_file w)) (load_state (state_file w))"
    using r by (auto simp: reaches_training_def Let_def)
  have "main cfg ev w =
     (Promoted (strip g),
      put (PromotedNote (strip g))
        (save_state
          ((load_state (state_file w))\<lparr>last_count := Some (read_count (feedback_file w)),
              last_time := Some (utcnow_save ev), last_model := Some (strip g)\<rparr>)
          (prune_old_models (KEEP_LAST cfg) (rmtree_fails ev)
            (reload_api (reload ev) (strip g)
              (put (TrainOutput out)
                (train_py_effect (trained_folder ev)
                  (put (Status (read_count (feedback_file w)) lc lt) w)))))))"
    using k st by (simp add: main_def Let_def t run_train_completed [OF g])
  then show ?thesis by blast
qed

lemma sample_marker: "re_search (py ''Saved new model to: /m'') = Some (py ''/m'')"
  by (simp add: py_simps match_here_def saved_marker_def dot_plus_def is_space_def)

lemma sample_strip: "strip (py ''/m'') = py ''/m''"
  by (simp add: py_simps strip_def is_space_def)

lemma sample_reaches: "reaches_training (policy_of_env True) offline_env smoke_world"
  by (simp add: reaches_training_def policy_of_env_def default_policy_def offline_env_def
      smoke_world_def load_state_def default_state_def should_train_def get_last_count_def
      get_last_time_def read_count_def splitlines_def py_simps is_linebreak_def strip_def
      is_space_def)

lemma sample_reaches_later: "reaches_training (policy_of_env True) offline_env later_world"
  by (simp add: reaches_training_def policy_of_env_def default_policy_def offline_env_def
      later_world_def load_state_def default_state_def should_train_def get_last_count_def
      get_last_time_def read_count_def splitlines_def py_simps is_linebreak_def strip_def
      is_space_def)

lemma sample_reaches_stocked: "reaches_training (policy_of_env True) offline_env stocked_world"
  by (simp add: reaches_training_def policy_of_env_def default_policy_def offline_env_def
      stocked_world_def load_state_def default_state_def should_train_def get_last_count_def
      get_last_time_def read_count_def splitlines_def py_simps is_linebreak_def strip_def
      is_space_def)

lemma prune_old_models_listing:
  assumes md: "models_dir w = Some entries"
    and dn: "distinct (map name entries)"
    and dm: "distinct (map mtime (filter is_dir entries))"
  shows "models_dir (prune_old_models keep fails w)
           = Some (filter (\<lambda>e. \<not> (beyond_newest keep entries e \<and> \<not> fails (name e))) entries)"
proof -
  let ?victims = "drop keep (sort_key (\<lambda>p. - mtime p) (filter is_dir entries))"
  have v: "set ?victims = {e \<in> set entries. beyond_newest keep entries e}"
    by (rule victims_beyond_newest [OF dn dm])
  have inj: "inj_on name (set entries)" using dn by (simp add: distinct_map)
  have "models_dir (prune_old_models keep fails w)
        = Some (filter (\<lambda>e. \<forall>p\<in>set ?victims. fails (name p) \<or> name p \<noteq> name e) entries)"
    using md by (simp add: prune_old_models_def fold_rmtree_models_dir)
  also have "filter (\<lambda>e. \<forall>p\<in>set ?victims. fails (name p) \<or> name p \<noteq> name e) entries
        = filter (\<lambda>e. \<not> (beyond_newest keep entries e \<and> \<not> fails (name e))) entries"
  proof (rule filter_cong [OF refl])
    fix e assume e: "e \<in> set entries"
    show "(\<forall>p\<in>set ?victims. fails (name p) \<or> name p \<noteq> name e)
          = (\<not> (beyond_newest keep entries e \<and> \<not> fails (name e)))"
      unfolding v using e inj by (auto dest: inj_onD)
  qed
  finally show ?thesis .
qed

text \<open>
  C6. When training succeeds and the reload request fails, the failure is printed as a
  warning and the run still ends as a promotion: the models directory is the one the
  training script left, pruned, and the state file holds the new count, the new time and
  the new model path.
\<close>

theorem reload_failure_still_promotes:
  assumes r: "reaches_training cfg ev w"
    and t: "train ev = Completed out"
    and g: "re_search out = Some g"
    and f: "reload ev = Refused e"
  shows "fst (main cfg ev w) = Promoted (strip g)
    \<and> ReloadWarning e \<in> set (printed (snd (main cfg ev w)))
    \<and> models_dir (snd (main cfg ev w))
        = models_dir (prune_old_models (KEEP_LAST cfg) (rmtree_fails ev)
            (train_py_effect (trained_folder ev) w))
    \<and> state_file (snd (main cfg ev w))
        = Json ((load_state (state_file w))\<lparr>last_count := Some (read_count (feedback_file w)),
              last_time := Some (utcnow_save ev), last_model := Some (strip g)\<rparr>)"
proof -
  obtain lc lt where k: "last_count (load_state (state_file w)) = Some lc"
      "last_time (load_state (state_file w)) = Some lt"
    using r by (auto simp: reaches_training_def Let_def)
  have st: "should_train cfg (utcnow_decide ev) (read_count (feedback_file w)) (load_state (state_file w))"
    using r by (auto simp: reaches_training_def Let_def)
  let ?w3 = "reload_api (reload ev) (strip g)
              (put (TrainOutput out)
                (train_py_effect (trained_folder ev)
                  (put (Status (read_count (feedback_file w)) lc lt) w)))"
  have m: "main cfg ev w =
     (Promoted (strip g),
      put (PromotedNote (strip g))
        (save_state
          ((load_state (state_file w))\<lparr>last_count := Some (read_count (feedback_file w)),
              last_time := Some (utcnow_save ev), last_model := Some (strip g)\<rparr>)
          (prune_old_models (KEEP_LAST cfg) (rmtree_fails ev) ?w3)))"
    using k st by (simp add: main_def Let_def t run_train_completed [OF g])
  have 1: "fst (main cfg ev w) = Promoted (strip g)" by (simp add: m)
  have "ReloadWarning e \<in> set (printed ?w3)"
    unfolding f by (rule reload_api_refused)
  then have "ReloadWarning e \<in> set (printed (prune_old_models (KEEP_LAST cfg) (rmtree_fails ev) ?w3))"
    using prune_old_models_keeps_printed by blast
  then have 2: "ReloadWarning e \<in> set (printed (snd (main cfg ev w)))"
    by (simp add: m save_state_def)
  have "models_dir (put (Status (read_count (feedback_file w)) lc lt) w) = models_dir w"
    by simp
  then have "models_dir (train_py_effect (trained_folder ev)
                (put (Status (read_count (feedback_file w)) lc lt) w))
             = models_dir (train_py_effect (trained_folder ev) w)"
    by (rule train_py_effect_models_dir_cong)
  then have "models_dir ?w3 = models_dir (train_py_effect (trained_folder ev) w)"
    by (simp add: reload_api_models_dir)
  then have "models_dir (prune_old_models (KEEP_LAST cfg) (rmtree_fails ev) ?w3)
      = models_dir (prune_old_models (KEEP_LAST cfg) (rmtree_fails ev)
          (train_py_effect (trained_folder ev) w))"
    by (rule prune_old_models_models_dir_cong)
  then have 3: "models_dir (snd (main cfg ev w))
        = models_dir (prune_old_models (KEEP_LAST cfg) (rmtree_fails ev)
            (train_py_effect (trained_folder ev) w))"
    by (simp add: m save_state_def)
  have 4: "state_file (snd (main cfg ev w))
        = Json ((load_state (state_file w))\<lparr>last_count := Some (read_count (feedback_file w)),
              last_time := Some (utcnow_save ev), last_model := Some (strip g)\<rparr>)"
    by (simp add: m save_state_def)
  show ?thesis using 1 2 3 4 by blast
qed

theorem reload_failure_still_promotes_witness:
  "reaches_training (policy_of_env True) offline_env stocked_world
   \<and> train offline_env = Completed (py ''Saved new model to: /m'')
   \<and> re_search (py ''Saved new model to: /m'') = Some (py ''/m'')
   \<and> reload offline_env = Refused (py ''down'')
   \<and> fst (main (policy_of_env True) offline_env stocked_world) = Promoted (py ''/m'')
   \<and> ReloadWarning (py ''down'')
        \<in> set (printed (snd (main (policy_of_env True) offline_env stocked_world)))
   \<and> models_dir (snd (main (policy_of_env True) offline_env stocked_world))
       = Some [mk_entry ''v2'' True 70, mk_entry ''log'' False 5, mk_entry ''v5'' True 60,
               mk_entry ''v6'' True 50, mk_entry ''v7'' True 40, mk_entry ''v9'' True 90]
   \<and> state_file (snd (main (policy_of_env True) offline_env stocked_world))
       = Json \<lparr>last_count = Some 1, last_time = Some 200, last_model = Some (py ''/m'')\<rparr>"
proof -
  have t: "train offline_env = Completed (py ''Saved new model to: /m'')"
    by (simp add: offline_env_def)
  have f: "reload offline_env = Refused (py ''down'')"
    by (simp add: offline_env_def)
  have c: "read_count (feedback_file stocked_world) = 1"
    by (simp add: stocked_world_def read_count_def splitlines_def py_simps is_linebreak_def
        strip_def is_space_def)
  have s: "load_state (state_file stocked_world) = default_state"
    by (simp add: stocked_world_def load_state_def)
  have u: "utcnow_save offline_env = 200" by (simp add: offline_env_def)
  have k: "KEEP_LAST (policy_of_env True) = 5"
    by (simp add: policy_of_env_def default_policy_def)
  have md: "models_dir (train_py_effect (trained_folder offline_env) stocked_world)
            = Some (seven_models @ [mk_entry ''v9'' True 90])"
    by (simp add: train_py_effect_def offline_env_def stocked_world_def seven_models_def
        mk_entry_def py_simps)
  have dn: "distinct (map name (seven_models @ [mk_entry ''v9'' True 90]))"
    by (simp add: seven_models_def mk_entry_def py_simps)
  have dm: "distinct (map mtime (filter is_dir (seven_models @ [mk_entry ''v9'' True 90])))"
    by (simp add: seven_models_def mk_entry_def)
  have p: "models_dir (prune_old_models 5 (rmtree_fails offline_env)
             (train_py_effect (trained_folder offline_env) stocked_world))
       = Some [mk_entry ''v2'' True 70, mk_entry ''log'' False 5, mk_entry ''v5'' True 60,
               mk_entry ''v6'' True 50, mk_entry ''v7'' True 40, mk_entry ''v9'' True 90]"
    unfolding prune_old_models_listing [OF md dn dm]
    by (simp add: seven_models_def mk_entry_def beyond_newest_def offline_env_def)
  show ?thesis
    using reload_failure_still_promotes [OF sample_reaches_stocked t sample_marker f]
      sample_reaches_stocked t sample_marker f
    by (simp add: sample_strip c s u k p default_state_def)
qed

lemma main_promoted_count:
  assumes "fst (main cfg ev w) = Promoted p"
  shows "persisted_count (snd (main cfg ev w)) = Some (read_count (feedback_file w))"
  using assms
  by (auto simp: main_def Let_def persisted_count_def save_state_def
      split: option.splits if_splits prod.splits sum.splits)

text \<open>
  C8. After a promoting run the state file holds the count read at the start of that run,
  which is never negative; when the feedback log only grows between two promoting runs,
  the later count is at least the earlier one.
\<close>

theorem promoted_count_is_total_and_monotone:
  assumes "fst (main cfg ev w) = Promoted p"
    and "fst (main cfg' ev' w') = Promoted p'"
    and "appended (feedback_file w) (feedback_file w')"
  shows "persisted_count (snd (main cfg ev w)) = Some (read_count (feedback_file w))
    \<and> persisted_count (snd (main cfg' ev' w')) = Some (read_count (feedback_file w'))
    \<and> 0 \<le> read_count (feedback_file w)
    \<and> read_count (feedback_file w) \<le> read_count (feedback_file w')"
  using main_promoted_count [OF assms(1)] main_promoted_count [OF assms(2)]
    read_count_nonneg [of "feedback_file w"] read_count_appended [OF assms(3)]
  by blast

theorem promoted_count_is_total_and_monotone_witness:
  "fst (main (policy_of_env True) offline_env smoke_world) = Promoted (py ''/m'')
   \<and> fst (main (policy_of_env True) offline_env later_world) = Promoted (py ''/m'')
   \<and> appended (feedback_file smoke_world) (feedback_file later_world)
   \<and> persisted_count (snd (main (policy_of_env True) offline_env smoke_world)) = Some 1
   \<and> persisted_count (snd (main (policy_of_env True) offline_env later_world)) = Some 2"
proof -
  have t: "train offline_env = Completed (py ''Saved new model to: /m'')"
    by (simp add: offline_env_def)
  have p1: "fst (main (policy_of_env True) offline_env smoke_world) = Promoted (py ''/m'')"
    using main_promotes [OF sample_reaches t sample_marker] by (auto simp: sample_strip)
  have p2: "fst (main (policy_of_env True) offline_env later_world) = Promoted (py ''/m'')"
    using main_promotes [OF sample_reaches_later t sample_marker] by (auto simp: sample_strip)
  have a: "appended (feedback_file smoke_world) (feedback_file later_world)"
    by (simp add: appended_def smoke_world_def later_world_def)
  have c1: "read_count (feedback_file smoke_world) = 1"
    by (simp add: smoke_world_def read_count_def splitlines_def py_simps is_linebreak_def
        strip_def is_space_def)
  have c2: "read_count (feedback_file later_world) = 2"
    by (simp add: later_world_def read_count_def splitlines_def py_simps is_linebreak_def
        strip_def is_space_def)
  show ?thesis
    using promoted_count_is_total_and_monotone [OF p1 p2 a] p1 p2 a
    by (simp add: c1 c2)
qed

section \<open>Properties of the training-set builder\<close>

subsection \<open>Evaluating doubles\<close>

lemma bitlength_0 [simp]: "bitlength 0 = 0"
  by (simp add: bitlength.simps [of 0])

lemma bitlength_Suc_0 [simp]: "bitlength (Suc 0) = Suc 0"
  by (simp add: bitlength.simps [of "Suc 0"])

lemma bitlength_numeral [simp]: "bitlength (numeral k) = Suc (bitlength (numeral k div 2))"
  by (simp add: bitlength.simps [of "numeral k"])

lemmas float_defs = fsub_def fmul_def fle_def flt_def fround_def round53_def float_of_int_def
  int_of_float_def f_1_0_def f_0_1_def f_0_45_def f_0_65_def f_0_50_def f_0_9_def f_0_95_def
  f_0_55_def Let_def

lemma label2id_simps [simp]:
  "label2id (py ''SARCASM'') = Some 1"
  "label2id (py ''NOT_SARCASM'') = Some 0"
  by (simp_all add: label2id_def py_simps)

lemma labels_differ [simp]:
  "py ''SARCASM'' \<noteq> py ''NOT_SARCASM''"
  "py ''NOT_SARCASM'' \<noteq> py ''SARCASM''"
  by (simp_all add: py_simps)

lemma build_loop_step:
  assumes "label2id (user r) = Some y"
  shows "build_loop (r # rows) out
         = build_loop rows (out @ replicate (weight r) \<lparr>row_text = raw_text r, label = y\<rparr>)"
proof -
  have 3: "[x] @ replicate (DISAGREE_DUP - 1) x = replicate DISAGREE_DUP x" for x :: train_row
    by (simp add: DISAGREE_DUP_def numeral_3_eq_3)
  have 2: "[x] @ replicate (UNCERT_DUP - 1) x = replicate UNCERT_DUP x" for x :: train_row
    by (simp add: UNCERT_DUP_def numeral_2_eq_2)
  show ?thesis
    using assms 3 2 by (simp add: weight_def Let_def)
qed

lemma build_loop_all:
  "\<forall>r\<in>set rows. label2id (user r) \<noteq> None \<Longrightarrow>
   build_loop rows out
   = Inr (out @ concat (map (\<lambda>r. replicate (weight r)
            \<lparr>row_text = raw_text r, label = the (label2id (user r))\<rparr>) rows))"
proof (induction rows arbitrary: out)
  case Nil
  then show ?case by simp
next
  case (Cons r rows)
  then obtain y where y: "label2id (user r) = Some y" by auto
  have "build_loop (r # rows) out
        = build_loop rows (out @ replicate (weight r) \<lparr>row_text = raw_text r, label = y\<rparr>)"
    by (rule build_loop_step [OF y])
  also have "\<dots> = Inr ((out @ replicate (weight r) \<lparr>row_text = raw_text r, label = y\<rparr>)
        @ concat (map (\<lambda>r. replicate (weight r)
            \<lparr>row_text = raw_text r, label = the (label2id (user r))\<rparr>) rows))"
    using Cons.prems by (intro Cons.IH) simp
  finally show ?case using y by simp
qed



subsection \<open>The validation share in doubles\<close>

text \<open>
  Rounding to 53 bits never moves a value below a multiple of \<open>2 ^ 55\<close> that it has
  reached, and adds at most one part in \<open>2 ^ 53\<close>; so \<open>int(0.1 * n)\<close> is the
  integer quotient of \<open>n\<close> by 10 for every list length that fits in memory.
\<close>

lemma bitlength_upper: "n < 2 ^ bitlength n"
proof (induction n rule: bitlength.induct)
  case (1 n)
  show ?case
  proof (cases "n = 0")
    case True
    then show ?thesis by simp
  next
    case False
    then have "n div 2 < 2 ^ bitlength (n div 2)" using 1 by simp
    then have "n < 2 * 2 ^ bitlength (n div 2)" by linarith
    then show ?thesis using False by (simp add: bitlength.simps [of n])
  qed
qed

lemma bitlength_lower: "0 < n \<Longrightarrow> 2 ^ bitlength n \<le> 2 * n"
proof (induction n rule: bitlength.induct)
  case (1 n)
  show ?case
  proof (cases "n div 2 = 0")
    case True
    then have "n = 1" using 1(2) by linarith
    then show ?thesis by simp
  next
    case False
    then have "2 ^ bitlength (n div 2) \<le> 2 * (n div 2)" using 1 by simp
    then have "2 * 2 ^ bitlength (n div 2) \<le> 2 * n" by linarith
    then show ?thesis using 1(2) by (simp add: bitlength.simps [of n])
  qed
qed

lemma round53_choice:
  assumes "53 < bitlength p"
  shows "round53 p = (p div 2 ^ (bitlength p - 53)) * 2 ^ (bitlength p - 53)
       \<or> (round53 p = (p div 2 ^ (bitlength p - 53) + 1) * 2 ^ (bitlength p - 53)
          \<and> 2 ^ (bitlength p - 53) \<le> 2 * (p mod 2 ^ (bitlength p - 53)))"
  using assms by (auto simp: round53_def Let_def)

lemma round53_small: "bitlength p \<le> 53 \<Longrightarrow> round53 p = p"
  by (simp add: round53_def)

lemma round53_upper: "round53 p * 2 ^ 53 \<le> p * 2 ^ 53 + p"
proof (cases "bitlength p \<le> 53")
  case True
  then show ?thesis by (simp add: round53_small)
next
  case False
  define s where "s = bitlength p - 53"
  define q where "q = p div 2 ^ s"
  define r where "r = p mod 2 ^ s"
  have l: "bitlength p = s + 53" using False by (simp add: s_def)
  have p: "p = q * 2 ^ s + r"
    unfolding q_def r_def by (rule div_mult_mod_eq [symmetric])
  have pos: "0 < p" using False by (cases "p = 0") auto
  have c: "round53 p = q * 2 ^ s \<or> (round53 p = (q + 1) * 2 ^ s \<and> 2 ^ s \<le> 2 * r)"
    using round53_choice [of p] False by (simp add: s_def q_def r_def)
  then have "2 * round53 p \<le> 2 * p + 2 ^ s"
  proof
    assume "round53 p = q * 2 ^ s"
    then show ?thesis using p by simp
  next
    assume a: "round53 p = (q + 1) * 2 ^ s \<and> 2 ^ s \<le> 2 * r"
    then have "2 * round53 p = 2 * (q * 2 ^ s) + 2 ^ s + 2 ^ s" by (simp add: algebra_simps)
    also have "\<dots> \<le> 2 * (q * 2 ^ s) + 2 * r + 2 ^ s" using a by simp
    also have "\<dots> = 2 * p + 2 ^ s" using p by simp
    finally show ?thesis .
  qed
  then have "2 * round53 p * 2 ^ 53 \<le> (2 * p + 2 ^ s) * 2 ^ 53" by simp
  also have "\<dots> = 2 * p * 2 ^ 53 + 2 ^ bitlength p" by (simp add: l power_add algebra_simps)
  also have "\<dots> \<le> 2 * p * 2 ^ 53 + 2 * p" using bitlength_lower [OF pos] by simp
  finally show ?thesis by simp
qed

lemma round53_lower:
  assumes a: "a * 2 ^ 55 \<le> p" and b: "p < 2 ^ 108"
  shows "a * 2 ^ 55 \<le> round53 p"
proof (cases "bitlength p \<le> 53")
  case True
  then show ?thesis using a by (simp add: round53_small)
next
  case False
  define s where "s = bitlength p - 53"
  define q where "q = p div 2 ^ s"
  have pos: "0 < p" using False by (cases "p = 0") auto
  have "(2::nat) ^ bitlength p \<le> 2 * p" by (rule bitlength_lower [OF pos])
  also have "\<dots> < 2 ^ 109" using b by simp
  finally have "bitlength p < 109" by (simp only: power_strict_increasing_iff)
  then have s55: "s \<le> 55" by (simp add: s_def)
  have e: "(2::nat) ^ 55 = 2 ^ (55 - s) * 2 ^ s"
    using s55 by (simp add: power_add [symmetric])
  have "a * 2 ^ (55 - s) * 2 ^ s \<le> p" using a e by (simp add: mult.assoc)
  then have "a * 2 ^ (55 - s) \<le> q"
    unfolding q_def by (simp add: less_eq_div_iff_mult_less_eq)
  then have "a * 2 ^ (55 - s) * 2 ^ s \<le> q * 2 ^ s" by (rule mult_le_mono1)
  then have q: "a * 2 ^ 55 \<le> q * 2 ^ s" by (simp only: e mult.assoc)
  have "q * 2 ^ s \<le> round53 p"
    using round53_choice [of p] False by (auto simp: s_def q_def)
  with q show ?thesis by simp
qed


lemma bitlength_le:
  assumes "n < 2 ^ k"
  shows "bitlength n \<le> k"
proof (cases "n = 0")
  case True
  then show ?thesis by simp
next
  case False
  then have "(2::nat) ^ bitlength n \<le> 2 * n" by (simp add: bitlength_lower)
  also have "\<dots> < 2 ^ Suc k" using assms by simp
  finally have "bitlength n < Suc k" by (simp only: power_strict_increasing_iff)
  then show ?thesis by simp
qed

lemma round53_0 [simp]: "round53 0 = 0"
  by (simp add: round53_def)

lemma tenth_product_rounded:
  assumes n: "n < 2 ^ 48"
  shows "round53 (3602879701896397 * n) div 2 ^ 55 = n div 10"
proof -
  define k where "k = n div 10"
  define p where "p = 3602879701896397 * n"
  have k: "10 * k \<le> n" "n < 10 * k + 10" by (simp_all add: k_def)
  have n': "n < 281474976710656" using n by simp
  have lo: "k * 2 ^ 55 \<le> p" using k by (simp add: p_def)
  have "p < 2 ^ 108" using n' by (simp add: p_def)
  then have 1: "k * 2 ^ 55 \<le> round53 p" using lo by (intro round53_lower)
  have "round53 p * 2 ^ 53 \<le> p * 2 ^ 53 + p" by (rule round53_upper)
  then have "9007199254740992 * round53 p \<le> 32451855365842678082635154902221 * n"
    by (simp add: p_def algebra_simps)
  then have "round53 p < 36028797018963968 * k + 36028797018963968" using k n' by linarith
  then have 2: "round53 p < 2 ^ 55 * Suc k" by simp
  have "round53 p div 2 ^ 55 = k"
    using 1 2 by (intro div_nat_eqI) (simp_all add: mult.commute)
  then show ?thesis by (simp add: p_def k_def)
qed

lemma int_tenth:
  assumes "n < 2 ^ 48"
  shows "int_of_float (fmul f_0_1 (float_of_int (int n))) = int (n div 10)"
proof -
  have "bitlength n \<le> 53" using bitlength_le [of n 48] assms by simp
  then have f: "float_of_int (int n) = (int n, 0)"
    by (simp add: float_of_int_def fround_def round53_small sgn_if)
  have "fmul f_0_1 (int n, 0) = (int (round53 (3602879701896397 * n)), - 55)"
    by (simp add: fmul_def f_0_1_def fround_def sgn_if nat_mult_distrib abs_mult)
  then have "int_of_float (fmul f_0_1 (float_of_int (int n)))
             = int (round53 (3602879701896397 * n) div 2 ^ 55)"
    by (simp add: f int_of_float_def sgn_if zdiv_int)
  then show ?thesis using tenth_product_rounded [OF assms] by simp
qed

lemma n_val_of_tenth: "n < 2 ^ 48 \<Longrightarrow> n_val_of n = max 1 (n div 10)"
  by (simp add: n_val_of_def int_tenth)

subsection \<open>Shuffling and splitting\<close>

lemma shuffle_from_perm:
  assumes rb: "well_ranged rb"
  shows "i < length x \<Longrightarrow> mset (fst (shuffle_from rb i g x)) = mset x"
proof (induction i arbitrary: g x)
  case 0
  then show ?case by simp
next
  case (Suc i)
  obtain j g' where r: "rb g (Suc i + 1) = (j, g')" by (cases "rb g (Suc i + 1)") auto
  have "fst (rb g (Suc i + 1)) < Suc i + 1" using rb by (simp add: well_ranged_def)
  then have j: "j < length x" using r Suc.prems by simp
  let ?x = "x[Suc i := x ! j, j := x ! Suc i]"
  have m: "mset ?x = mset x" using Suc.prems j by (simp add: mset_swap)
  have "i < length ?x" using Suc.prems by simp
  then have "mset (fst (shuffle_from rb i g' ?x)) = mset ?x" by (rule Suc.IH)
  then show ?case using r m by simp
qed

lemma shuffle_perm:
  assumes "well_ranged rb"
  shows "mset (fst (shuffle rb g x)) = mset x"
proof (cases x)
  case Nil
  then show ?thesis by (simp add: shuffle_def)
next
  case (Cons a as)
  then have "length x - 1 < length x" by simp
  then show ?thesis unfolding shuffle_def by (rule shuffle_from_perm [OF assms])
qed

text \<open>
  C9. The rows are shuffled with the generator seeded by 31415; the shuffle and the split
  are functions of the rows and of that seeded generator alone. For a non-empty list of
  \<open>n\<close> rows the validation set is the first \<open>max 1 (n div 10)\<close> rows of the shuffled
  list, the training set is the rest, and together they hold exactly the weighted rows.
\<close>

theorem shuffled_split_partitions:
  assumes wr: "well_ranged (randbelow R)"
    and b: "build_training_rows raw = Inr rows"
    and ne: "rows \<noteq> []"
    and sz: "length rows < 2 ^ 48"
  shows "SEED = 31415
    \<and> split_rows R raw
        = Inr (take (max 1 (length rows div 10)) (fst (shuffle (randbelow R) (seed R SEED) rows)),
               drop (max 1 (length rows div 10)) (fst (shuffle (randbelow R) (seed R SEED) rows)))
    \<and> mset (fst (shuffle (randbelow R) (seed R SEED) rows)) = mset rows
    \<and> length (take (max 1 (length rows div 10)) (fst (shuffle (randbelow R) (seed R SEED) rows)))
        = max 1 (length rows div 10)
    \<and> mset (take (max 1 (length rows div 10)) (fst (shuffle (randbelow R) (seed R SEED) rows)))
        + mset (drop (max 1 (length rows div 10)) (fst (shuffle (randbelow R) (seed R SEED) rows)))
        = mset rows"
proof -
  let ?sh = "fst (shuffle (randbelow R) (seed R SEED) rows)"
  let ?nv = "max 1 (length rows div 10)"
  have m: "mset ?sh = mset rows" by (rule shuffle_perm [OF wr])
  then have l: "length ?sh = length rows" by (rule mset_eq_length)
  have nv: "n_val_of (length rows) = ?nv" by (rule n_val_of_tenth [OF sz])
  have 1: "split_rows R raw = Inr (take ?nv ?sh, drop ?nv ?sh)"
    by (simp add: split_rows_def b Let_def l nv)
  have "1 \<le> length rows" using ne by (cases rows) simp_all
  moreover have "length rows div 10 \<le> length rows" by simp
  ultimately have "?nv \<le> length rows" by simp
  then have 2: "length (take ?nv ?sh) = ?nv" using l by simp
  have "mset (take ?nv ?sh) + mset (drop ?nv ?sh) = mset (take ?nv ?sh @ drop ?nv ?sh)"
    by (simp only: mset_append)
  then have 3: "mset (take ?nv ?sh) + mset (drop ?nv ?sh) = mset rows"
    using m by (simp only: append_take_drop_id)
  show ?thesis using 1 2 3 m by (simp add: SEED_def)
qed

lemma shuffle_from_numeral:
  "shuffle_from rb (numeral k) g x =
     (case rb g (numeral k + 1) of
        (j, g') \<Rightarrow> shuffle_from rb (pred_numeral k) g' (x[numeral k := x ! j, j := x ! numeral k]))"
  by (simp add: numeral_eq_Suc)

lemma shuffle_from_1:
  "shuffle_from rb (Suc 0) g x =
     (case rb g 2 of (j, g') \<Rightarrow> (x[Suc 0 := x ! j, j := x ! Suc 0], g'))"
  using shuffle_from.simps(2) [of rb 0 g x] by (simp add: numeral_2_eq_2)

lemma list_update_Cons_numeral:
  "(x # xs)[numeral k := v] = x # xs[pred_numeral k := v]"
  "(x # xs)[1 := v] = x # xs[0 := v]"
  by (simp_all add: numeral_eq_Suc)

lemma sample_shuffle: "fst (shuffle (randbelow toy_rng) (seed toy_rng SEED)
              [\<lparr>row_text = py ''a'', label = 1\<rparr>, \<lparr>row_text = py ''b'', label = 1\<rparr>,
               \<lparr>row_text = py ''b'', label = (1::nat)\<rparr>])
            = [\<lparr>row_text = py ''b'', label = 1\<rparr>, \<lparr>row_text = py ''a'', label = 1\<rparr>,
               \<lparr>row_text = py ''b'', label = 1\<rparr>]"
proof -
  have l: "length [\<lparr>row_text = py ''a'', label = 1\<rparr>, \<lparr>row_text = py ''b'', label = 1\<rparr>,
               \<lparr>row_text = py ''b'', label = (1::nat)\<rparr>] - 1 = 2" by simp
  show ?thesis
    unfolding shuffle_def l
    by (simp add: toy_rng_def SEED_def shuffle_from_numeral shuffle_from_1
        list_update_Cons_numeral del: shuffle_from.simps)
qed

theorem shuffled_split_partitions_witness:
  "well_ranged (randbelow toy_rng)
   \<and> build_training_rows two_votes
       = Inr [\<lparr>row_text = py ''a'', label = 1\<rparr>, \<lparr>row_text = py ''b'', label = 1\<rparr>,
              \<lparr>row_text = py ''b'', label = 1\<rparr>]
   \<and> split_rows toy_rng two_votes
       = Inr ([\<lparr>row_text = py ''b'', label = 1\<rparr>],
              [\<lparr>row_text = py ''a'', label = 1\<rparr>, \<lparr>row_text = py ''b'', label = 1\<rparr>])"
proof -
  let ?rows = "[\<lparr>row_text = py ''a'', label = 1\<rparr>, \<lparr>row_text = py ''b'', label = 1\<rparr>,
              \<lparr>row_text = py ''b'', label = (1::nat)\<rparr>]"
  have w: "well_ranged (randbelow toy_rng)"
    by (simp add: well_ranged_def toy_rng_def)
  have wa: "weight \<lparr>raw_text = py ''a'', user = py ''SARCASM'', pred = py ''SARCASM'', score = f_0_95\<rparr> = 1"
    by (simp add: weight_def p_sarcasm_from_row_def UNCERT_BAND_def float_defs)
  have wb: "weight \<lparr>raw_text = py ''b'', user = py ''SARCASM'', pred = py ''SARCASM'', score = f_0_55\<rparr> = 2"
    by (simp add: weight_def p_sarcasm_from_row_def UNCERT_BAND_def UNCERT_DUP_def float_defs)
  have b: "build_training_rows two_votes = Inr ?rows"
  proof -
    have "build_loop two_votes []
          = Inr ([] @ concat (map (\<lambda>r. replicate (weight r)
              \<lparr>row_text = raw_text r, label = the (label2id (user r))\<rparr>) two_votes))"
      by (rule build_loop_all) (simp add: two_votes_def)
    then show ?thesis
      by (simp add: build_training_rows_def two_votes_def wa wb numeral_2_eq_2)
  qed
  have ne: "?rows \<noteq> []" by simp
  have sz: "length ?rows < 2 ^ 48" by simp
  have nv: "max 1 (length ?rows div 10) = 1" by simp
  have "split_rows toy_rng two_votes
        = Inr (take (max 1 (length ?rows div 10)) (fst (shuffle (randbelow toy_rng) (seed toy_rng SEED) ?rows)),
               drop (max 1 (length ?rows div 10)) (fst (shuffle (randbelow toy_rng) (seed toy_rng SEED) ?rows)))"
    using shuffled_split_partitions [OF w b ne sz] by blast
  then have "split_rows toy_rng two_votes
       = Inr ([\<lparr>row_text = py ''b'', label = 1\<rparr>],
              [\<lparr>row_text = py ''a'', label = 1\<rparr>, \<lparr>row_text = py ''b'', label = 1\<rparr>])"
    unfolding nv sample_shuffle by simp
  then show ?thesis using w b by blast
qed

section \<open>Properties of the serving API\<close>

subsection \<open>Writing a line to the log\<close>




subsection \<open>Feedback is stored once\<close>














lemma retyped_hash_input: "hash_input retyped_vote = py ''a||b''"
  by (simp add: hash_input_def retyped_vote_def sample_vote_def strip_def py_simps is_space_def)











end
